theory Spec2Isabelle
  imports Main "HOL-Library.Word"
begin

unbundle bit_operations_syntax

section \<open>Morton encoding of 3D coordinate vectors (include/morton.h)\<close>

subsection \<open>Data\<close>

text \<open>
  \<open>enum class coordinate_t : uint8_t { x = 0, y = 1, z = 2 }\<close>: the position of
  each axis inside an interleaved bit triple.  The constructors carry the suffix
  \<open>_axis\<close>; \<open>coord_val\<close> is the cast \<open>uint8_t(S)\<close>.
\<close>

datatype coordinate_t = x_axis | y_axis | z_axis

fun coord_val :: "coordinate_t \<Rightarrow> nat" where
  "coord_val x_axis = 0"
| "coord_val y_axis = 1"
| "coord_val z_axis = 2"

text \<open>
  \<open>glm::u32vec3\<close>: a triple of \<open>uint32_t\<close> components \<open>x\<close>, \<open>y\<close>, \<open>z\<close>
  (fields \<open>vx\<close>, \<open>vy\<close>, \<open>vz\<close> here).
\<close>

record u32vec3 =
  vx :: "32 word"
  vy :: "32 word"
  vz :: "32 word"

subsection \<open>Table builder\<close>

text \<open>\<open>constexpr uint32_t masks[] = { 0, 0x49249249, 0xC30C30C3, 0x0F00F00F, 0xFF0000FF }\<close>\<close>

definition masks :: "32 word list" where
  "masks = [0, 0x49249249, 0xC30C30C3, 0x0F00F00F, 0xFF0000FF]"

text \<open>
  \<open>interleave(uint32_t x, int level)\<close>: returns \<open>x\<close> at level 0 and otherwise
  recurses on \<open>(x | x << (1 << level)) & masks[level]\<close> with \<open>level - 1\<close>.
  The only caller passes level 4 and the recursion counts down to 0, so the level
  is a natural number here.
\<close>

fun interleave_level :: "32 word \<Rightarrow> nat \<Rightarrow> 32 word" where
  "interleave_level x 0 = x"
| "interleave_level x (Suc l) =
     interleave_level ((x OR push_bit (2 ^ Suc l) x) AND masks ! Suc l) l"

text \<open>\<open>interleave(uint8_t x)\<close> is \<open>interleave(uint32_t(x), 4)\<close>.\<close>

definition interleave :: "8 word \<Rightarrow> 32 word" where
  "interleave b = interleave_level (ucast b) 4"

subsection \<open>Encoder\<close>

text \<open>
  \<open>morton<S>(uint32_t value, index_sequence<Idx...>)\<close>.  The static table holds
  \<open>interleave(uint8_t(Idx)) << uint8_t(S)\<close> for every index of the sequence, in
  order; the three bytes of the value index it, and the three entries are widened
  to 64 bits, shifted by 48, 24 and 0 and combined.  The shift by 48 happens in
  64 bits, so bits pushed beyond position 63 are lost.
\<close>

definition table :: "coordinate_t \<Rightarrow> nat list \<Rightarrow> 32 word list" where
  "table S idxs = map (\<lambda>idx. push_bit (coord_val S) (interleave (of_nat idx))) idxs"

definition morton_seq :: "coordinate_t \<Rightarrow> 32 word \<Rightarrow> nat list \<Rightarrow> 64 word" where
  "morton_seq S val idxs =
     (let low = (ucast (val AND 0xFF) :: 8 word);
          middle = (ucast (drop_bit 8 val AND 0xFF) :: 8 word);
          high = (ucast (drop_bit 16 val AND 0xFF) :: 8 word)
      in push_bit 48 (ucast (table S idxs ! unat high) :: 64 word) OR
         push_bit 24 (ucast (table S idxs ! unat middle) :: 64 word) OR
         (ucast (table S idxs ! unat low) :: 64 word))"

text \<open>\<open>morton<S>(uint32_t value)\<close> instantiates the sequence \<open>0, 1, ..., 255\<close>.\<close>

definition morton_axis :: "coordinate_t \<Rightarrow> 32 word \<Rightarrow> 64 word" where
  "morton_axis S val = morton_seq S val [0..<256]"

text \<open>\<open>morton(glm::u32vec3 coordinates)\<close>\<close>

definition morton :: "u32vec3 \<Rightarrow> 64 word" where
  "morton coordinates =
     morton_axis x_axis (vx coordinates) OR
     morton_axis y_axis (vy coordinates) OR
     morton_axis z_axis (vz coordinates)"

subsection \<open>Decoder\<close>

text \<open>\<open>unmorton<S>(uint64_t x)\<close>: the six masking stages, then the cast to 32 bits.\<close>

definition unmorton_axis :: "coordinate_t \<Rightarrow> 64 word \<Rightarrow> 32 word" where
  "unmorton_axis S x0 =
     (let x = drop_bit (coord_val S) x0;
          x = x AND 0x9249249249249249;
          x = (x OR drop_bit 2 x) AND 0x30C30C30C30C30C3;
          x = (x OR drop_bit 4 x) AND 0xF00F00F00F00F00F;
          x = (x OR drop_bit 8 x) AND 0x00FF0000FF0000FF;
          x = (x OR drop_bit 16 x) AND 0xFFFF00000000FFFF;
          x = (x OR drop_bit 32 x) AND 0x00000000FFFFFFFF
      in ucast x)"

text \<open>\<open>unmorton(uint64_t m)\<close>\<close>

definition unmorton :: "64 word \<Rightarrow> u32vec3" where
  "unmorton m =
     \<lparr> vx = unmorton_axis x_axis m,
       vy = unmorton_axis y_axis m,
       vz = unmorton_axis z_axis m \<rparr>"

section \<open>Reference interleaving\<close>

text \<open>
  The reference the encoder is compared with, written from the data model of the
  specification and not from the code: a Morton code partitions its bits into three
  interleaved streams, one per axis, each occupying every third position from offset
  0 (x), 1 (y) and 2 (z).  \<open>interleave_ref k\<close> places bit \<open>i\<close> of each component,
  for \<open>i < k\<close>, at positions \<open>3 i\<close>, \<open>3 i + 1\<close> and \<open>3 i + 2\<close>; a valid
  component has 21 bits.
\<close>

fun interleave_ref :: "nat \<Rightarrow> 32 word \<Rightarrow> 32 word \<Rightarrow> 32 word \<Rightarrow> 64 word" where
  "interleave_ref 0 x y z = 0"
| "interleave_ref (Suc i) x y z =
     interleave_ref i x y z OR
     push_bit (3 * i) (of_bool (bit x i)) OR
     push_bit (3 * i + 1) (of_bool (bit y i)) OR
     push_bit (3 * i + 2) (of_bool (bit z i))"

definition morton_ref :: "u32vec3 \<Rightarrow> 64 word" where
  "morton_ref v = interleave_ref 21 (vx v) (vy v) (vz v)"

section \<open>The operations with undefined behaviour made explicit\<close>

text \<open>
  The definitions above use the total operations of HOL.  In C++ an array subscript
  outside the array and a shift by a negative count or by at least the width of the
  operand are undefined, and a recursion has to reach its base case.  The following
  model of the same functions returns a fault in each of these cases.  The level of
  \<open>interleave\<close> is the \<open>int\<close> of the source here: \<open>1 << level\<close> shifts a 32-bit
  \<open>int\<close>, \<open>x << (1 << level)\<close> a \<open>uint32_t\<close>, and \<open>masks[level]\<close> reads an
  array of five entries.  Shifts by a literal constant below the operand width
  (8, 16, 24, 48 and the constants of the decoder) are always defined and carry no
  check.
\<close>

datatype fault = Index_out_of_bounds | Shift_out_of_range

text \<open>
  \<open>interleave(uint32_t x, int level)\<close>.  Away from level 0 it evaluates
  \<open>1 << level\<close> (defined for \<open>0 \<le> level < 32\<close>), shifts \<open>x\<close> by the result
  (defined when that is below 32), reads \<open>masks[level]\<close> (defined for
  \<open>0 \<le> level < 5\<close>) and calls itself with \<open>level - 1\<close>.  The termination proof
  shows that the recursion always ends, in a result or in a fault.
\<close>

function interleave_level_chk :: "32 word \<Rightarrow> int \<Rightarrow> fault + 32 word" where
  "interleave_level_chk x level =
     (if level = 0 then Inr x
      else if level < 0 \<or> 32 \<le> level then Inl Shift_out_of_range
      else if 32 \<le> (2 :: int) ^ nat level then Inl Shift_out_of_range
      else if int (length masks) \<le> level then Inl Index_out_of_bounds
      else interleave_level_chk
             ((x OR push_bit (2 ^ nat level) x) AND masks ! nat level) (level - 1))"
  by pat_completeness auto
termination
  by (relation "measure (\<lambda>(x, level). nat level)") auto

definition interleave_chk :: "8 word \<Rightarrow> fault + 32 word" where
  "interleave_chk b = interleave_level_chk (ucast b) 4"

text \<open>
  The static table of \<open>morton<S>(value, index_sequence<Idx...>)\<close>: every entry is
  \<open>interleave(uint8_t(Idx)) << uint8_t(S)\<close>, a shift of a \<open>uint32_t\<close>.
\<close>

fun table_chk :: "coordinate_t \<Rightarrow> nat list \<Rightarrow> fault + 32 word list" where
  "table_chk S [] = Inr []"
| "table_chk S (idx # idxs) =
     (case interleave_chk (of_nat idx) of
        Inl e \<Rightarrow> Inl e
      | Inr w \<Rightarrow>
          if 32 \<le> coord_val S then Inl Shift_out_of_range
          else (case table_chk S idxs of
                  Inl e \<Rightarrow> Inl e
                | Inr t \<Rightarrow> Inr (push_bit (coord_val S) w # t)))"

text \<open>A subscript \<open>xs[i]\<close> is defined inside the array only.\<close>

definition index_chk :: "'a list \<Rightarrow> nat \<Rightarrow> fault + 'a" where
  "index_chk xs i = (if i < length xs then Inr (xs ! i) else Inl Index_out_of_bounds)"

text \<open>
  The body of \<open>morton<S>(value, index_sequence<Idx...>)\<close> with its three table
  reads, then \<open>morton<S>(value)\<close> on the 256 indices and \<open>morton(coordinates)\<close>.
\<close>

definition morton_seq_chk :: "coordinate_t \<Rightarrow> 32 word \<Rightarrow> nat list \<Rightarrow> fault + 64 word" where
  "morton_seq_chk S val idxs =
     (case table_chk S idxs of
        Inl e \<Rightarrow> Inl e
      | Inr t \<Rightarrow>
          (let low = (ucast (val AND 0xFF) :: 8 word);
               middle = (ucast (drop_bit 8 val AND 0xFF) :: 8 word);
               high = (ucast (drop_bit 16 val AND 0xFF) :: 8 word)
           in case index_chk t (unat high) of
                Inl e \<Rightarrow> Inl e
              | Inr h \<Rightarrow>
                  (case index_chk t (unat middle) of
                     Inl e \<Rightarrow> Inl e
                   | Inr m \<Rightarrow>
                       (case index_chk t (unat low) of
                          Inl e \<Rightarrow> Inl e
                        | Inr l \<Rightarrow>
                            Inr (push_bit 48 (ucast h :: 64 word) OR
                                 push_bit 24 (ucast m :: 64 word) OR
                                 (ucast l :: 64 word))))))"

definition morton_axis_chk :: "coordinate_t \<Rightarrow> 32 word \<Rightarrow> fault + 64 word" where
  "morton_axis_chk S val = morton_seq_chk S val [0..<256]"

definition morton_chk :: "u32vec3 \<Rightarrow> fault + 64 word" where
  "morton_chk coordinates =
     (case morton_axis_chk x_axis (vx coordinates) of
        Inl e \<Rightarrow> Inl e
      | Inr mx \<Rightarrow>
          (case morton_axis_chk y_axis (vy coordinates) of
             Inl e \<Rightarrow> Inl e
           | Inr my \<Rightarrow>
               (case morton_axis_chk z_axis (vz coordinates) of
                  Inl e \<Rightarrow> Inl e
                | Inr mz \<Rightarrow> Inr (mx OR my OR mz))))"

text \<open>
  \<open>unmorton<S>(x)\<close>: the shift \<open>x >> uint8_t(S)\<close> of a \<open>uint64_t\<close> is the only
  operation with a count that is not a literal; then \<open>unmorton(m)\<close>.
\<close>

definition unmorton_axis_chk :: "coordinate_t \<Rightarrow> 64 word \<Rightarrow> fault + 32 word" where
  "unmorton_axis_chk S x0 =
     (if 64 \<le> coord_val S then Inl Shift_out_of_range
      else
       (let x = drop_bit (coord_val S) x0;
            x = x AND 0x9249249249249249;
            x = (x OR drop_bit 2 x) AND 0x30C30C30C30C30C3;
            x = (x OR drop_bit 4 x) AND 0xF00F00F00F00F00F;
            x = (x OR drop_bit 8 x) AND 0x00FF0000FF0000FF;
            x = (x OR drop_bit 16 x) AND 0xFFFF00000000FFFF;
            x = (x OR drop_bit 32 x) AND 0x00000000FFFFFFFF
        in Inr (ucast x)))"

definition unmorton_chk :: "64 word \<Rightarrow> fault + u32vec3" where
  "unmorton_chk m =
     (case unmorton_axis_chk x_axis m of
        Inl e \<Rightarrow> Inl e
      | Inr x \<Rightarrow>
          (case unmorton_axis_chk y_axis m of
             Inl e \<Rightarrow> Inl e
           | Inr y \<Rightarrow>
               (case unmorton_axis_chk z_axis m of
                  Inl e \<Rightarrow> Inl e
                | Inr z \<Rightarrow> Inr \<lparr> vx = x, vy = y, vz = z \<rparr>)))"

section \<open>Bit-level characterisation\<close>

subsection \<open>Case analysis over bit positions\<close>

text \<open>
  A property of the bits of a 32-bit or 64-bit word is checked position by position;
  the masks are literal constants, so each position is a computation.
\<close>

lemma below_32I:
  assumes "P 0" "P 1" "P 2" "P 3" "P 4" "P 5" "P 6" "P 7" "P 8" "P 9" "P 10" "P 11"
    "P 12" "P 13" "P 14" "P 15" "P 16" "P 17" "P 18" "P 19" "P 20" "P 21" "P 22" "P 23"
    "P 24" "P 25" "P 26" "P 27" "P 28" "P 29" "P 30" "P 31"
  shows "\<forall>n<32::nat. P n"
  using assms by (simp add: eval_nat_numeral All_less_Suc)

lemma below_64I:
  assumes "P 0" "P 1" "P 2" "P 3" "P 4" "P 5" "P 6" "P 7" "P 8" "P 9" "P 10" "P 11"
    "P 12" "P 13" "P 14" "P 15" "P 16" "P 17" "P 18" "P 19" "P 20" "P 21" "P 22" "P 23"
    "P 24" "P 25" "P 26" "P 27" "P 28" "P 29" "P 30" "P 31" "P 32" "P 33" "P 34" "P 35"
    "P 36" "P 37" "P 38" "P 39" "P 40" "P 41" "P 42" "P 43" "P 44" "P 45" "P 46" "P 47"
    "P 48" "P 49" "P 50" "P 51" "P 52" "P 53" "P 54" "P 55" "P 56" "P 57" "P 58" "P 59"
    "P 60" "P 61" "P 62" "P 63"
  shows "\<forall>n<64::nat. P n"
  using assms by (simp add: eval_nat_numeral All_less_Suc)

lemma bit_word64_out: "64 \<le> k \<Longrightarrow> bit w k \<longleftrightarrow> False" for w :: "64 word"
  by (auto dest: bit_imp_le_length)

lemma bit_word64_charI:
  fixes w :: "64 word"
  assumes "\<forall>n<64. bit w n \<longleftrightarrow> Q n"
  shows "bit w n \<longleftrightarrow> n < 64 \<and> Q n"
proof (cases "n < 64")
  case True
  with assms show ?thesis by simp
next
  case False
  then show ?thesis by (simp add: bit_word64_out)
qed

subsection \<open>The spread table\<close>

lemma interleave_unfold: "interleave b = interleave_level (ucast b) (Suc (Suc (Suc (Suc 0))))"
  by (simp add: interleave_def eval_nat_numeral)

lemma interleave_bit_below:
  "\<forall>n<32. bit (interleave b) n \<longleftrightarrow> n mod 3 = 0 \<and> n div 3 < 8 \<and> bit b (n div 3)"
  unfolding interleave_unfold interleave_level.simps
  by (rule below_32I) (auto simp add: masks_def bit_simps dest: bit_imp_le_length)

lemma interleave_bit:
  "bit (interleave b) n \<longleftrightarrow> n mod 3 = 0 \<and> n div 3 < 8 \<and> bit b (n div 3)"
proof (cases "n < 32")
  case False
  then show ?thesis by (auto dest: bit_imp_le_length)
next
  case True
  with interleave_bit_below [of b] show ?thesis by simp
qed

lemma table_nth:
  "table S [0..<256] ! unat b = push_bit (coord_val S) (interleave b)" for b :: "8 word"
proof -
  have "unat b < 256" using unsigned_less [of b, where 'a=nat] by simp
  then show ?thesis by (simp add: table_def del: upt_rec_numeral)
qed

lemma morton_axis_unfold:
  "morton_axis S val =
     push_bit 48
       (ucast (push_bit (coord_val S) (interleave (ucast (drop_bit 16 val AND 0xFF))))
          :: 64 word) OR
     push_bit 24
       (ucast (push_bit (coord_val S) (interleave (ucast (drop_bit 8 val AND 0xFF))))
          :: 64 word) OR
     (ucast (push_bit (coord_val S) (interleave (ucast (val AND 0xFF)))) :: 64 word)"
  by (simp add: morton_axis_def morton_seq_def Let_def table_nth del: upt_rec_numeral)

subsection \<open>The encoder, bit by bit\<close>

lemma bit_byte_mask_int: "bit (0xFF :: int) j \<longleftrightarrow> j < 8"
proof -
  have eq: "(0xFF :: int) = mask 8" by (simp add: mask_eq_exp_minus_1)
  show ?thesis unfolding eq bit_mask_iff by auto
qed

lemma bit_byte_mask: "bit (0xFF :: 'a::len word) j \<longleftrightarrow> j < 8 \<and> j < LENGTH('a)"
  by (auto simp add: bit_simps bit_byte_mask_int)

lemma byte_bit:
  "bit (ucast (val AND 0xFF) :: 8 word) j \<longleftrightarrow> j < 8 \<and> bit val j" for val :: "32 word"
  by (simp only: bit_ucast_iff bit_and_iff bit_byte_mask) auto

lemma entry_bit:
  "bit (ucast (push_bit (coord_val S) (interleave (ucast (val AND 0xFF)))) :: 64 word) n \<longleftrightarrow>
     coord_val S \<le> n \<and> (n - coord_val S) mod 3 = 0 \<and> (n - coord_val S) div 3 < 8 \<and>
     bit val ((n - coord_val S) div 3)" for val :: "32 word"
  apply (simp only: bit_ucast_iff bit_push_bit_iff interleave_bit)
  apply (cases S; auto simp add: bit_simps bit_byte_mask_int)
  done

lemma morton_axis_bit:
  "bit (morton_axis S val) n \<longleftrightarrow> n < 64 \<and> n mod 3 = coord_val S \<and> bit val (n div 3)"
  apply (rule bit_word64_charI)
  apply (simp only: morton_axis_unfold bit_or_iff bit_push_bit_iff entry_bit)
  apply (cases S; simp only: coord_val.simps; rule below_64I; simp add: bit_drop_bit_eq)
  done

lemma morton_bit:
  "bit (morton v) n \<longleftrightarrow>
     n < 64 \<and> (n mod 3 = 0 \<and> bit (vx v) (n div 3) \<or>
               n mod 3 = 1 \<and> bit (vy v) (n div 3) \<or>
               n mod 3 = 2 \<and> bit (vz v) (n div 3))"
  unfolding morton_def bit_or_iff morton_axis_bit coord_val.simps by auto

subsection \<open>The decoder's masking stages\<close>

lemma unmorton_stage1:
  fixes w :: "64 word"
  shows "bit (w AND 0x9249249249249249) n \<longleftrightarrow> n < 64 \<and> n mod 3 = 0 \<and> bit w n"
  by (rule bit_word64_charI, rule below_64I; simp add: bit_simps)

lemma unmorton_stage2:
  fixes x w :: "64 word"
  assumes "\<And>n. bit x n \<longleftrightarrow> n < 64 \<and> n mod 3 = 0 \<and> bit w n"
  shows "bit ((x OR drop_bit 2 x) AND 0x30C30C30C30C30C3) n \<longleftrightarrow>
           n < 64 \<and> n mod 6 < 2 \<and> bit w (n + 2 * (n mod 6))"
  by (rule bit_word64_charI, rule below_64I; simp add: bit_simps assms bit_word64_out)
    (simp add: numeral_3_eq_3)

lemma unmorton_stage3:
  fixes x w :: "64 word"
  assumes "\<And>n. bit x n \<longleftrightarrow> n < 64 \<and> n mod 6 < 2 \<and> bit w (n + 2 * (n mod 6))"
  shows "bit ((x OR drop_bit 4 x) AND 0xF00F00F00F00F00F) n \<longleftrightarrow>
           n < 64 \<and> n mod 12 < 4 \<and> bit w (n + 2 * (n mod 12))"
  by (rule bit_word64_charI, rule below_64I; simp add: bit_simps assms bit_word64_out)

lemma unmorton_stage4:
  fixes x w :: "64 word"
  assumes "\<And>n. bit x n \<longleftrightarrow> n < 64 \<and> n mod 12 < 4 \<and> bit w (n + 2 * (n mod 12))"
  shows "bit ((x OR drop_bit 8 x) AND 0x00FF0000FF0000FF) n \<longleftrightarrow>
           n < 64 \<and> n mod 24 < 8 \<and> bit w (n + 2 * (n mod 24))"
  by (rule bit_word64_charI, rule below_64I; simp add: bit_simps assms bit_word64_out)

lemma unmorton_stage5:
  fixes x w :: "64 word"
  assumes "\<And>n. bit x n \<longleftrightarrow> n < 64 \<and> n mod 24 < 8 \<and> bit w (n + 2 * (n mod 24))"
  shows "bit ((x OR drop_bit 16 x) AND 0xFFFF00000000FFFF) n \<longleftrightarrow>
           n < 64 \<and> n mod 48 < 16 \<and> bit w (n + 2 * (n mod 48))"
  by (rule bit_word64_charI, rule below_64I; simp add: bit_simps assms bit_word64_out)

lemma unmorton_stage6:
  fixes x w :: "64 word"
  assumes "\<And>n. bit x n \<longleftrightarrow> n < 64 \<and> n mod 48 < 16 \<and> bit w (n + 2 * (n mod 48))"
  shows "bit ((x OR drop_bit 32 x) AND 0x00000000FFFFFFFF) n \<longleftrightarrow>
           n < 64 \<and> n < 32 \<and> bit w (3 * n)"
  by (rule bit_word64_charI, rule below_64I; simp add: bit_simps assms bit_word64_out)
    (simp add: numeral_3_eq_3)

lemma unmorton_axis_bit:
  "bit (unmorton_axis S m) i \<longleftrightarrow> 3 * i + coord_val S < 64 \<and> bit m (3 * i + coord_val S)"
proof -
  note st = unmorton_stage6 [OF unmorton_stage5 [OF unmorton_stage4 [OF unmorton_stage3
    [OF unmorton_stage2 [OF unmorton_stage1]]]]]
  have "bit (unmorton_axis S m) i \<longleftrightarrow> i < 32 \<and> bit (drop_bit (coord_val S) m) (3 * i)"
    unfolding unmorton_axis_def Let_def by (simp only: bit_ucast_iff st) auto
  also have "\<dots> \<longleftrightarrow> 3 * i + coord_val S < 64 \<and> bit m (3 * i + coord_val S)"
    by (cases S) (auto simp add: bit_drop_bit_eq add.commute dest: bit_imp_le_length)
  finally show ?thesis .
qed

subsection \<open>Decoding an encoded vector, encoding a decoded code\<close>

lemma three_div_mod:
  "(3 * i) mod 3 = 0" "(3 * i) div 3 = i"
  "(3 * i + 1) mod 3 = 1" "(3 * i + 1) div 3 = i"
  "(3 * i + 2) mod 3 = 2" "(3 * i + 2) div 3 = i"
  "Suc (3 * i) mod 3 = 1" "Suc (3 * i) div 3 = i"
  "Suc (Suc (3 * i)) mod 3 = 2" "Suc (Suc (3 * i)) div 3 = i" for i :: nat
  by presburger+

lemma unmorton_x_morton: "unmorton_axis x_axis (morton v) = take_bit 22 (vx v)"
  by (rule bit_eqI) (auto simp add: unmorton_axis_bit morton_bit bit_take_bit_iff three_div_mod)

lemma unmorton_y_morton: "unmorton_axis y_axis (morton v) = take_bit 21 (vy v)"
  by (rule bit_eqI) (auto simp add: unmorton_axis_bit morton_bit bit_take_bit_iff three_div_mod)

lemma unmorton_z_morton: "unmorton_axis z_axis (morton v) = take_bit 21 (vz v)"
  by (rule bit_eqI) (auto simp add: unmorton_axis_bit morton_bit bit_take_bit_iff three_div_mod)

lemma take_bit_in_range:
  fixes c :: "32 word"
  assumes "c < 2 ^ 21"
  shows "take_bit 21 c = c" "take_bit 22 c = c"
proof -
  from assms show "take_bit 21 c = c" unfolding take_bit_eq_mask by (rule less_mask_eq)
  from assms have "c < 2 ^ 22" by (rule less_trans) simp
  then show "take_bit 22 c = c" unfolding take_bit_eq_mask by (rule less_mask_eq)
qed

lemma unmorton_morton_in_range:
  assumes "vx v < 2 ^ 21" "vy v < 2 ^ 21" "vz v < 2 ^ 21"
  shows "unmorton (morton v) = v"
  using assms
  by (simp add: unmorton_def unmorton_x_morton unmorton_y_morton unmorton_z_morton take_bit_in_range)

lemma morton_unmorton_id: "morton (unmorton m) = m"
proof (rule bit_word_eqI)
  fix n :: nat
  consider (x) "n mod 3 = 0" | (y) "n mod 3 = 1" | (z) "n mod 3 = 2"
    by arith
  then show "bit (morton (unmorton m)) n = bit m n"
  proof cases
    case x
    then have "3 * (n div 3) + 0 = n" by presburger
    with x show ?thesis
      by (auto simp add: morton_bit unmorton_def unmorton_axis_bit dest: bit_imp_le_length)
  next
    case y
    then have "3 * (n div 3) + 1 = n" by presburger
    with y show ?thesis
      by (auto simp add: morton_bit unmorton_def unmorton_axis_bit dest: bit_imp_le_length)
  next
    case z
    then have "3 * (n div 3) + 2 = n" by presburger
    with z show ?thesis
      by (auto simp add: morton_bit unmorton_def unmorton_axis_bit dest: bit_imp_le_length)
  qed
qed

subsection \<open>The reference interleaving, bit by bit\<close>

lemma interleave_ref_bit:
  "bit (interleave_ref k x y z) n \<longleftrightarrow>
     n < 64 \<and> n div 3 < k \<and>
     (n mod 3 = 0 \<and> bit x (n div 3) \<or> n mod 3 = 1 \<and> bit y (n div 3) \<or> n mod 3 = 2 \<and> bit z (n div 3))"
proof (induction k)
  case 0
  then show ?case by simp
next
  case (Suc k)
  have a: "n = 3 * k \<longleftrightarrow> n mod 3 = 0 \<and> n div 3 = k" by presburger
  have b: "n = 3 * k + 1 \<longleftrightarrow> n mod 3 = 1 \<and> n div 3 = k" by presburger
  have c: "n = 3 * k + 2 \<longleftrightarrow> n mod 3 = 2 \<and> n div 3 = k" by presburger
  have d: "n div 3 < Suc k \<longleftrightarrow> n div 3 < k \<or> n div 3 = k" by auto
  have e: "bit (push_bit j (of_bool P) :: 64 word) n \<longleftrightarrow> n < 64 \<and> P \<and> n = j" for j P
    by (auto simp add: bit_simps)
  show ?case
    unfolding interleave_ref.simps bit_or_iff Suc.IH e a b c d by auto
qed

subsection \<open>The checked operations never fault\<close>

lemma interleave_chk_ok:
  "interleave_chk b = Inr (interleave b)"
  unfolding interleave_chk_def interleave_unfold
  by (simp add: masks_def)

lemma table_chk_ok: "table_chk S idxs = Inr (table S idxs)"
  by (induction idxs) (simp_all add: table_def interleave_chk_ok, cases S, simp_all)

lemma table_length: "length (table S idxs) = length idxs"
  by (simp add: table_def)

lemma morton_axis_chk_ok: "morton_axis_chk S val = Inr (morton_axis S val)"
proof -
  have "unat b < length (table S [0..<256])" for b :: "8 word"
    using unsigned_less [of b, where 'a=nat] by (simp add: table_length del: upt_rec_numeral)
  then show ?thesis
    by (simp add: morton_axis_chk_def morton_seq_chk_def table_chk_ok index_chk_def
        morton_axis_def morton_seq_def Let_def del: upt_rec_numeral)
qed

lemma unmorton_axis_chk_ok: "unmorton_axis_chk S x0 = Inr (unmorton_axis S x0)"
proof -
  have "\<not> 64 \<le> coord_val S" by (cases S) simp_all
  then show ?thesis unfolding unmorton_axis_chk_def unmorton_axis_def by (simp only: if_False Let_def)
qed

subsection \<open>Components in the valid range\<close>

lemma bit_in_range:
  fixes c :: "32 word"
  assumes "c < 2 ^ 21" "bit c k"
  shows "k < 21"
proof -
  from assms(2) have "bit (take_bit 21 c) k" by (simp add: take_bit_in_range [OF assms(1)])
  then show ?thesis by (simp add: bit_take_bit_iff)
qed

lemma morton_eq_ref_in_range:
  assumes "vx v < 2 ^ 21" "vy v < 2 ^ 21" "vz v < 2 ^ 21"
  shows "morton v = morton_ref v"
proof (rule bit_word_eqI)
  fix n :: nat
  have "n div 3 < 21"
    if "n mod 3 = 0 \<and> bit (vx v) (n div 3) \<or> n mod 3 = 1 \<and> bit (vy v) (n div 3) \<or>
        n mod 3 = 2 \<and> bit (vz v) (n div 3)"
    using that assms by (blast dest: bit_in_range)
  then show "bit (morton v) n = bit (morton_ref v) n"
    unfolding morton_ref_def morton_bit interleave_ref_bit by auto
qed

lemma bit_upper_cong:
  fixes a b :: "32 word"
  assumes "drop_bit 8 a = drop_bit 8 b" "8 \<le> k"
  shows "bit a k = bit b k"
proof -
  have "bit a k = bit (drop_bit 8 a) (k - 8)" "bit b k = bit (drop_bit 8 b) (k - 8)"
    using assms(2) by (simp_all add: bit_drop_bit_eq)
  with assms(1) show ?thesis by simp
qed

section \<open>The claims of the specification\<close>

text \<open>
  Claim C1 (round trip).  For every coordinate triple whose components all lie in
  \<open>[0, 2\<^sup>2\<^sup>1)\<close>, decoding the encoded code returns the original triple:
  \<open>unmorton (morton (x, y, z)) = (x, y, z)\<close>.
\<close>

theorem morton_round_trip:
  assumes "x < 2 ^ 21" "y < 2 ^ 21" "z < 2 ^ 21"
  shows "unmorton (morton \<lparr>vx = x, vy = y, vz = z\<rparr>) = \<lparr>vx = x, vy = y, vz = z\<rparr>"
  using assms by (simp add: unmorton_morton_in_range)

theorem morton_round_trip_witness:
  "(1234567 :: 32 word) < 2 ^ 21 \<and> (2097151 :: 32 word) < 2 ^ 21 \<and> (0 :: 32 word) < 2 ^ 21 \<and>
   unmorton (morton \<lparr>vx = 1234567, vy = 2097151, vz = 0\<rparr>) = \<lparr>vx = 1234567, vy = 2097151, vz = 0\<rparr>"
  using morton_round_trip [of 1234567 2097151 0] by simp

text \<open>
  Claim C2 (the encoder refines the reference interleaving).  For components in
  \<open>[0, 2\<^sup>2\<^sup>1)\<close> the table-based encoder equals the reference interleaving; bit
  \<open>i\<close> of \<open>x\<close> is bit \<open>3 i\<close> of the code, bit \<open>i\<close> of \<open>y\<close> is bit \<open>3 i + 1\<close> and
  bit \<open>i\<close> of \<open>z\<close> is bit \<open>3 i + 2\<close>, for all \<open>i < 21\<close>, and the code has no
  other bit set.
\<close>

theorem morton_matches_reference:
  assumes "vx v < 2 ^ 21" "vy v < 2 ^ 21" "vz v < 2 ^ 21"
  shows "morton v = morton_ref v \<and>
         (\<forall>i<21. bit (morton v) (3 * i) = bit (vx v) i \<and>
                 bit (morton v) (3 * i + 1) = bit (vy v) i \<and>
                 bit (morton v) (3 * i + 2) = bit (vz v) i) \<and>
         (\<forall>n. bit (morton v) n \<longrightarrow> (\<exists>i<21. n = 3 * i \<or> n = 3 * i + 1 \<or> n = 3 * i + 2))"
proof (intro conjI allI impI)
  show "morton v = morton_ref v" using assms by (rule morton_eq_ref_in_range)
next
  fix i :: nat assume "i < 21"
  then show "bit (morton v) (3 * i) = bit (vx v) i"
    by (simp add: morton_bit three_div_mod)
next
  fix i :: nat assume "i < 21"
  then show "bit (morton v) (3 * i + 1) = bit (vy v) i"
    by (simp add: morton_bit three_div_mod)
next
  fix i :: nat assume "i < 21"
  then show "bit (morton v) (3 * i + 2) = bit (vz v) i"
    by (simp add: morton_bit three_div_mod)
next
  fix n assume b: "bit (morton v) n"
  then have "n mod 3 = 0 \<and> bit (vx v) (n div 3) \<or> n mod 3 = 1 \<and> bit (vy v) (n div 3) \<or>
      n mod 3 = 2 \<and> bit (vz v) (n div 3)"
    by (simp add: morton_bit)
  with assms have "n div 3 < 21"
    by (blast dest: bit_in_range)
  moreover have "n = 3 * (n div 3) \<or> n = 3 * (n div 3) + 1 \<or> n = 3 * (n div 3) + 2"
    by presburger
  ultimately show "\<exists>i<21. n = 3 * i \<or> n = 3 * i + 1 \<or> n = 3 * i + 2"
    by blast
qed

theorem morton_matches_reference_witness:
  "(5 :: 32 word) < 2 ^ 21 \<and> (3 :: 32 word) < 2 ^ 21 \<and> (6 :: 32 word) < 2 ^ 21 \<and>
   morton \<lparr>vx = 5, vy = 3, vz = 6\<rparr> = morton_ref \<lparr>vx = 5, vy = 3, vz = 6\<rparr> \<and>
   bit (morton \<lparr>vx = 5, vy = 3, vz = 6\<rparr>) (3 * 2) = bit (5 :: 32 word) 2 \<and>
   bit (morton \<lparr>vx = 5, vy = 3, vz = 6\<rparr>) (3 * 2 + 1) = bit (3 :: 32 word) 2 \<and>
   bit (morton \<lparr>vx = 5, vy = 3, vz = 6\<rparr>) (3 * 2 + 2) = bit (6 :: 32 word) 2 \<and>
   bit (morton \<lparr>vx = 5, vy = 3, vz = 6\<rparr>) 8 \<and>
   (\<exists>i<21. (8 :: nat) = 3 * i \<or> 8 = 3 * i + 1 \<or> 8 = 3 * i + 2)"
proof -
  let ?v = "\<lparr>vx = 5, vy = 3, vz = 6 :: 32 word\<rparr>"
  have r: "vx ?v < 2 ^ 21" "vy ?v < 2 ^ 21" "vz ?v < 2 ^ 21"
    by simp_all
  have i: "(2 :: nat) < 21"
    by simp
  have b: "bit (morton ?v) 8"
    by (simp add: morton_bit)
  note t = morton_matches_reference [OF r]
  from t have "morton ?v = morton_ref ?v" ..
  moreover from t i have
    "bit (morton ?v) (3 * 2) = bit (vx ?v) 2 \<and>
     bit (morton ?v) (3 * 2 + 1) = bit (vy ?v) 2 \<and>
     bit (morton ?v) (3 * 2 + 2) = bit (vz ?v) 2"
    by blast
  moreover from t b have "\<exists>i<21. (8 :: nat) = 3 * i \<or> 8 = 3 * i + 1 \<or> 8 = 3 * i + 2"
    by blast
  ultimately show ?thesis
    using b by simp
qed

text \<open>
  The encoder reads three bytes of each component and does not mask them.  Bit 21 of
  the x component goes through entry \<open>table[high]\<close> to position \<open>48 + 15 = 63\<close>, so the
  code of \<open>(2\<^sup>2\<^sup>1, 0, 0)\<close> is \<open>2\<^sup>6\<^sup>3\<close>: with arbitrary 32-bit components the
  top bit of the code can be set.
\<close>

theorem morton_bit63_counterexample:
  "\<not> morton \<lparr>vx = 0x200000, vy = 0, vz = 0\<rparr> < 2 ^ 63"
  by (simp add: morton_def morton_axis_unfold interleave_unfold masks_def)

text \<open>
  Claim C3 (only the low 63 bits are populated), as amended.  For arbitrary 32-bit
  components, bit 63 of the code is bit 21 of the x component; the y and z components
  never reach it.  So the code is below \<open>2\<^sup>6\<^sup>3\<close> whenever the x component is below
  \<open>2\<^sup>2\<^sup>1\<close>, whatever the other two components are.
\<close>

theorem morton_bit63:
  "(bit (morton v) 63 \<longleftrightarrow> bit (vx v) 21) \<and> (vx v < 2 ^ 21 \<longrightarrow> morton v < 2 ^ 63)"
proof (intro conjI impI)
  show b: "bit (morton v) 63 \<longleftrightarrow> bit (vx v) 21" by (simp add: morton_bit)
  assume r: "vx v < 2 ^ 21"
  have "morton v AND mask 63 = morton v"
  proof (rule bit_word_eqI)
    fix n :: nat
    have "n < 63" if "bit (morton v) n"
    proof -
      from that have "n < 64" by (simp add: morton_bit)
      moreover have "\<not> bit (morton v) 63" unfolding b using bit_in_range [OF r, of 21] by auto
      ultimately show ?thesis using that by (cases "n = 63") auto
    qed
    then show "bit (morton v AND mask 63) n = bit (morton v) n"
      by (auto simp add: bit_and_iff bit_mask_iff)
  qed
  then show "morton v < 2 ^ 63"
    by (simp add: mask_eq_iff_w2p word_size)
qed

theorem morton_bit63_witness:
  "(0x1FFFFF :: 32 word) < 2 ^ 21 \<and>
   morton \<lparr>vx = 0x1FFFFF, vy = 0xFFFFFFFF, vz = 0xFFFFFFFF\<rparr> < 2 ^ 63"
  using morton_bit63 [of "\<lparr>vx = 0x1FFFFF, vy = 0xFFFFFFFF, vz = 0xFFFFFFFF\<rparr>"] by simp

text \<open>
  Claim C4 (injectivity on the valid range).  Two distinct vectors whose components
  all lie in \<open>[0, 2\<^sup>2\<^sup>1)\<close> have distinct codes.
\<close>

theorem morton_injective_in_range:
  assumes "vx v1 < 2 ^ 21" "vy v1 < 2 ^ 21" "vz v1 < 2 ^ 21"
    and "vx v2 < 2 ^ 21" "vy v2 < 2 ^ 21" "vz v2 < 2 ^ 21"
    and "v1 \<noteq> v2"
  shows "morton v1 \<noteq> morton v2"
proof
  assume "morton v1 = morton v2"
  then have "unmorton (morton v1) = unmorton (morton v2)" by simp
  then have "v1 = v2"
    using assms(1-6) by (simp add: unmorton_morton_in_range)
  with assms(7) show False by simp
qed

theorem morton_injective_in_range_witness:
  "(1 :: 32 word) < 2 ^ 21 \<and> (2 :: 32 word) < 2 ^ 21 \<and> (3 :: 32 word) < 2 ^ 21 \<and> (4 :: 32 word) < 2 ^ 21 \<and>
   \<lparr>vx = 1, vy = 2, vz = 3\<rparr> \<noteq> \<lparr>vx = 1, vy = 2, vz = 4 :: 32 word\<rparr> \<and>
   morton \<lparr>vx = 1, vy = 2, vz = 3\<rparr> \<noteq> morton \<lparr>vx = 1, vy = 2, vz = 4\<rparr>"
  using morton_injective_in_range [of "\<lparr>vx = 1, vy = 2, vz = 3\<rparr>" "\<lparr>vx = 1, vy = 2, vz = 4\<rparr>"]
  by simp

text \<open>
  Claim C5 (table builder).  For every byte \<open>b\<close>, \<open>interleave b\<close> is the 32-bit
  word that has bit \<open>i\<close> of \<open>b\<close> at position \<open>3 i\<close>, for \<open>i < 8\<close> (positions
  0, 3, ..., 21), and every other bit zero.
\<close>

theorem interleave_spreads_byte:
  "bit (interleave b) n \<longleftrightarrow> (\<exists>i<8. n = 3 * i \<and> bit b i)"
proof -
  have "n mod 3 = 0 \<and> n div 3 < 8 \<and> bit b (n div 3) \<longleftrightarrow> (\<exists>i<8. n = 3 * i \<and> bit b i)"
  proof
    assume a: "n mod 3 = 0 \<and> n div 3 < 8 \<and> bit b (n div 3)"
    then have "n mod 3 = 0" by simp
    then have "n = 3 * (n div 3)" by presburger
    with a show "\<exists>i<8. n = 3 * i \<and> bit b i" by blast
  next
    assume "\<exists>i<8. n = 3 * i \<and> bit b i"
    then obtain i where "i < 8" "n = 3 * i" "bit b i" by blast
    then show "n mod 3 = 0 \<and> n div 3 < 8 \<and> bit b (n div 3)" by simp
  qed
  then show ?thesis by (simp only: interleave_bit)
qed

theorem interleave_spreads_byte_witness:
  "bit (interleave 0xA5) 6 \<and> \<not> bit (interleave 0xA5) 7 \<and> \<not> bit (interleave 0xA5) 3"
proof -
  have "(2 :: nat) < 8 \<and> (6 :: nat) = 3 * 2 \<and> bit (0xA5 :: 8 word) 2" by simp
  then have "\<exists>i<8. (6 :: nat) = 3 * i \<and> bit (0xA5 :: 8 word) i" by blast
  then have "bit (interleave 0xA5) 6" by (simp only: interleave_spreads_byte)
  moreover have "\<not> bit (interleave 0xA5) 7"
    unfolding interleave_spreads_byte [of "0xA5" 7] by presburger
  moreover have "\<not> bit (interleave 0xA5) 3"
    unfolding interleave_spreads_byte [of "0xA5" 3] 
  proof
    assume "\<exists>i<8. (3 :: nat) = 3 * i \<and> bit (0xA5 :: 8 word) i"
    then obtain i :: nat where "3 = 3 * i" "bit (0xA5 :: 8 word) i" by blast
    then have "i = 1" by simp
    with \<open>bit (0xA5 :: 8 word) i\<close> show False by simp
  qed
  ultimately show ?thesis by simp
qed

text \<open>
  Claim C6 (axis isolation).  For every 32-bit value \<open>c\<close>, the code of
  \<open>(c, 0, 0)\<close> has bits only at positions congruent to 0 modulo 3, the code of
  \<open>(0, c, 0)\<close> only at positions congruent to 1, and the code of \<open>(0, 0, c)\<close> only at
  positions congruent to 2.
\<close>

theorem morton_axis_isolation:
  "(bit (morton \<lparr>vx = c, vy = 0, vz = 0\<rparr>) n \<longrightarrow> n mod 3 = 0) \<and>
   (bit (morton \<lparr>vx = 0, vy = c, vz = 0\<rparr>) n \<longrightarrow> n mod 3 = 1) \<and>
   (bit (morton \<lparr>vx = 0, vy = 0, vz = c\<rparr>) n \<longrightarrow> n mod 3 = 2)"
  by (simp add: morton_bit)

theorem morton_axis_isolation_witness:
  "bit (morton \<lparr>vx = 0xFFFFFFFF, vy = 0, vz = 0\<rparr>) 63 \<and> (63 :: nat) mod 3 = 0 \<and>
   bit (morton \<lparr>vx = 0, vy = 0xFFFFFFFF, vz = 0\<rparr>) 61 \<and> (61 :: nat) mod 3 = 1 \<and>
   bit (morton \<lparr>vx = 0, vy = 0, vz = 0xFFFFFFFF\<rparr>) 62 \<and> (62 :: nat) mod 3 = 2"
proof -
  have b: "bit (morton \<lparr>vx = 0xFFFFFFFF, vy = 0, vz = 0\<rparr>) 63"
    "bit (morton \<lparr>vx = 0, vy = 0xFFFFFFFF, vz = 0\<rparr>) 61"
    "bit (morton \<lparr>vx = 0, vy = 0, vz = 0xFFFFFFFF\<rparr>) 62"
    by (simp_all add: morton_bit)
  from b(1) morton_axis_isolation [of "0xFFFFFFFF" 63] have "(63 :: nat) mod 3 = 0" by blast
  moreover from b(2) morton_axis_isolation [of "0xFFFFFFFF" 61] have "(61 :: nat) mod 3 = 1" by blast
  moreover from b(3) morton_axis_isolation [of "0xFFFFFFFF" 62] have "(62 :: nat) mod 3 = 2" by blast
  ultimately show ?thesis using b by blast
qed

text \<open>
  Claim C7 (locality).  If two inputs differ at most in the low 8 bits of one
  component (the other two components are equal, and so are the bits of that
  component from position 8 on), their codes agree on every bit at position 24 and
  above.
\<close>

theorem morton_low_byte_locality:
  assumes "drop_bit 8 (vx v) = drop_bit 8 (vx w) \<and> vy v = vy w \<and> vz v = vz w \<or>
           vx v = vx w \<and> drop_bit 8 (vy v) = drop_bit 8 (vy w) \<and> vz v = vz w \<or>
           vx v = vx w \<and> vy v = vy w \<and> drop_bit 8 (vz v) = drop_bit 8 (vz w)"
    and "24 \<le> n"
  shows "bit (morton v) n = bit (morton w) n"
proof -
  from assms(2) have k: "8 \<le> n div 3" by presburger
  from assms(1) have d: "drop_bit 8 (vx v) = drop_bit 8 (vx w)"
    "drop_bit 8 (vy v) = drop_bit 8 (vy w)" "drop_bit 8 (vz v) = drop_bit 8 (vz w)"
    by auto
  have "bit (vx v) (n div 3) = bit (vx w) (n div 3)"
    using d(1) k by (rule bit_upper_cong)
  moreover have "bit (vy v) (n div 3) = bit (vy w) (n div 3)"
    using d(2) k by (rule bit_upper_cong)
  moreover have "bit (vz v) (n div 3) = bit (vz w) (n div 3)"
    using d(3) k by (rule bit_upper_cong)
  ultimately show ?thesis by (simp add: morton_bit)
qed

theorem morton_low_byte_locality_witness:
  "drop_bit 8 (0x1234AB :: 32 word) = drop_bit 8 (0x1234CD :: 32 word) \<and> (0x1234AB :: 32 word) \<noteq> 0x1234CD \<and>
   (24 :: nat) \<le> 30 \<and>
   bit (morton \<lparr>vx = 0x1234AB, vy = 7, vz = 9\<rparr>) 30 = bit (morton \<lparr>vx = 0x1234CD, vy = 7, vz = 9\<rparr>) 30 \<and>
   morton \<lparr>vx = 0x1234AB, vy = 7, vz = 9\<rparr> \<noteq> morton \<lparr>vx = 0x1234CD, vy = 7, vz = 9\<rparr>"
proof -
  have d: "drop_bit 8 (0x1234AB :: 32 word) = drop_bit 8 (0x1234CD :: 32 word)" by simp
  have "bit (morton \<lparr>vx = 0x1234AB, vy = 7, vz = 9\<rparr>) 30 = bit (morton \<lparr>vx = 0x1234CD, vy = 7, vz = 9\<rparr>) 30"
    using d morton_low_byte_locality [of "\<lparr>vx = 0x1234AB, vy = 7, vz = 9\<rparr>" "\<lparr>vx = 0x1234CD, vy = 7, vz = 9\<rparr>" 30]
    by simp
  moreover have "bit (morton \<lparr>vx = 0x1234AB, vy = 7, vz = 9\<rparr>) 3 \<noteq> bit (morton \<lparr>vx = 0x1234CD, vy = 7, vz = 9\<rparr>) 3"
    by (simp add: morton_bit)
  then have "morton \<lparr>vx = 0x1234AB, vy = 7, vz = 9\<rparr> \<noteq> morton \<lparr>vx = 0x1234CD, vy = 7, vz = 9\<rparr>"
    by metis
  ultimately show ?thesis using d by simp
qed

text \<open>
  Claim C8 (literal values).  \<open>morton (0,0,0) = 0\<close>, \<open>morton (1,0,0) = 1\<close>,
  \<open>morton (0,1,0) = 2\<close>, \<open>morton (0,0,1) = 4\<close>, \<open>morton (1,1,1) = 7\<close>,
  \<open>unmorton 0 = (0,0,0)\<close> and \<open>unmorton 7 = (1,1,1)\<close>.
\<close>

theorem morton_literal_values:
  "morton \<lparr>vx = 0, vy = 0, vz = 0\<rparr> = 0 \<and>
   morton \<lparr>vx = 1, vy = 0, vz = 0\<rparr> = 1 \<and>
   morton \<lparr>vx = 0, vy = 1, vz = 0\<rparr> = 2 \<and>
   morton \<lparr>vx = 0, vy = 0, vz = 1\<rparr> = 4 \<and>
   morton \<lparr>vx = 1, vy = 1, vz = 1\<rparr> = 7 \<and>
   unmorton 0 = \<lparr>vx = 0, vy = 0, vz = 0\<rparr> \<and>
   unmorton 7 = \<lparr>vx = 1, vy = 1, vz = 1\<rparr>"
proof (intro conjI)
  show "morton \<lparr>vx = 0, vy = 0, vz = 0\<rparr> = 0"
    "morton \<lparr>vx = 1, vy = 0, vz = 0\<rparr> = 1"
    "morton \<lparr>vx = 0, vy = 1, vz = 0\<rparr> = 2"
    "morton \<lparr>vx = 0, vy = 0, vz = 1\<rparr> = 4"
    "morton \<lparr>vx = 1, vy = 1, vz = 1\<rparr> = 7"
    by (simp_all add: morton_def morton_axis_unfold interleave_unfold masks_def)
  show "unmorton 0 = \<lparr>vx = 0, vy = 0, vz = 0\<rparr>"
    "unmorton 7 = \<lparr>vx = 1, vy = 1, vz = 1\<rparr>"
    unfolding unmorton_def unmorton_axis_def Let_def coord_val.simps
    by simp_all
qed

text \<open>
  Claim C9 (totality and determinism).  For any three 32-bit components and for any
  64-bit code, the model with every undefined operation made a fault returns a
  result, never a fault, and the result is the one of the functions above: every
  table and mask subscript is inside its array, every shift count is below the width
  of its operand, and the recursion of the table builder ends.  The result is a
  function of the input alone.
\<close>

theorem morton_unmorton_total:
  "morton_chk v = Inr (morton v) \<and> unmorton_chk m = Inr (unmorton m)"
  by (simp add: morton_chk_def morton_axis_chk_ok morton_def
      unmorton_chk_def unmorton_axis_chk_ok unmorton_def)

text \<open>
  Claim C10 (reverse round trip).  For every 64-bit code \<open>m\<close>, encoding the decoded
  triple gives \<open>m\<close> back; so the decoder is injective and the encoder is onto the
  64-bit codes.
\<close>

theorem unmorton_then_morton:
  "morton (unmorton m) = m \<and> inj unmorton \<and> surj morton"
proof (intro conjI)
  show "morton (unmorton m) = m" by (rule morton_unmorton_id)
  show "inj unmorton" by (rule inj_on_inverseI [where g = morton]) (rule morton_unmorton_id)
  show "surj morton" by (rule surjI [where f = unmorton]) (rule morton_unmorton_id)
qed

end
